theory Spec2Isabelle
  imports Complex_Main "HOL-Library.Char_ord" "HOL-Library.List_Lexorder"
begin

section \<open>The similarity search of \<^verbatim>\<open>search.py\<close>\<close>

text \<open>
  \<^verbatim>\<open>search.py\<close> has two functions. \<^verbatim>\<open>load_data\<close> reads the documents, takes the text
  field of each and fits a \<^verbatim>\<open>TfidfVectorizer\<close> on the texts. \<^verbatim>\<open>search_solutions\<close>
  transforms a query with the fitted vectorizer, multiplies the matrix of document vectors
  with the query vector, takes the first \<^verbatim>\<open>top_k\<close> indices of \<^verbatim>\<open>np.argsort(-scores)\<close>,
  keeps the positive scores and sorts the matches by descending score.

  Conventions of the embedding:
  \<^item> the 64-bit floats of numpy are idealised as real numbers, so that rounding is not
    modelled: where the specification says ``within floating-point tolerance'' the model
    has equality, and nothing is stated here about the last digits of a score (the code
    can return \<^verbatim>\<open>1.0000000000000002\<close> where the model has 1);
  \<^item> a document is a dictionary from field names to strings; the parsed JSON list is the
    input of \<^verbatim>\<open>load_data\<close> (reading the file is not modelled);
  \<^item> an exception is a value \<open>Inl e\<close> of a sum type;
  \<^item> the sparse matrix is the list of its rows.
\<close>

subsection \<open>Python values\<close>

datatype py_error = KeyError | ValueError | IndexError

type_synonym doc = "string \<rightharpoonup> string"

definition TOP_K :: int where
  "TOP_K = 5"

definition TEXT_FIELD :: string where
  "TEXT_FIELD = ''faiblesses''"

definition ID_FIELD :: string where
  "ID_FIELD = ''id''"

text \<open>\<^verbatim>\<open>xs[:k]\<close>: a negative \<open>k\<close> counts from the end.\<close>

definition py_take :: "int \<Rightarrow> 'a list \<Rightarrow> 'a list" where
  "py_take k xs = (if 0 \<le> k then take (nat k) xs else take (nat (int (length xs) + k)) xs)"

subsection \<open>The library: \<^verbatim>\<open>TfidfVectorizer\<close>\<close>

text \<open>
  Modelled from the spec: \<^verbatim>\<open>TfidfVectorizer\<close> belongs to scikit-learn, which
  \<^verbatim>\<open>search.py\<close> imports; its code is not among the sources. The definitions of this
  subsection follow section 4 of the specification, which agrees with the defaults of the
  library (\<^verbatim>\<open>smooth_idf=True\<close>, \<^verbatim>\<open>norm='l2'\<close>, \<^verbatim>\<open>sublinear_tf=False\<close>): the weight of a
  term in a text is its term frequency times \<open>ln ((N + 1) / (df + 1)) + 1\<close>, every
  vector is divided by its L2 norm unless that norm is zero, and a term outside the
  vocabulary is dropped. The analyzer (lower-casing and tokenisation) is a parameter, kept
  in the vectorizer: every theorem holds for every analyzer. The columns are the distinct
  terms in sorted order.
\<close>

record vectorizer =
  analyzer :: "string \<Rightarrow> string list"
  vocabulary :: "string list"
  idf :: "real list"

definition dot :: "real list \<Rightarrow> real list \<Rightarrow> real" where
  "dot u v = (\<Sum>(x, y) \<leftarrow> zip u v. x * y)"

definition l2norm :: "real list \<Rightarrow> real" where
  "l2norm v = sqrt (\<Sum>x \<leftarrow> v. x\<^sup>2)"

definition normalize_l2 :: "real list \<Rightarrow> real list" where
  "normalize_l2 v = (let n = l2norm v in if n = 0 then v else map (\<lambda>x. x / n) v)"

definition smooth_idf :: "nat \<Rightarrow> nat \<Rightarrow> real" where
  "smooth_idf n df = ln ((1 + real n) / (1 + real df)) + 1"

definition count_vector :: "string list \<Rightarrow> string list \<Rightarrow> real list" where
  "count_vector vocab toks = map (\<lambda>t. real (count_list toks t)) vocab"

definition tfidf :: "string list \<Rightarrow> real list \<Rightarrow> string list \<Rightarrow> real list" where
  "tfidf vocab idfs toks = normalize_l2 (map2 (*) (count_vector vocab toks) idfs)"

definition transform :: "vectorizer \<Rightarrow> string \<Rightarrow> real list" where
  "transform v text = tfidf (vocabulary v) (idf v) (analyzer v text)"

definition doc_freq :: "string list list \<Rightarrow> string \<Rightarrow> nat" where
  "doc_freq tokss t = length (filter (\<lambda>toks. t \<in> set toks) tokss)"

definition fit :: "(string \<Rightarrow> string list) \<Rightarrow> string list \<Rightarrow> vectorizer" where
  "fit an texts =
     (let tokss = map an texts;
          vocab = sort (remdups (concat tokss))
      in \<lparr>analyzer = an, vocabulary = vocab,
          idf = map (\<lambda>t. smooth_idf (length texts) (doc_freq tokss t)) vocab\<rparr>)"

text \<open>
  \<^verbatim>\<open>fit_transform\<close> of the library raises \<^verbatim>\<open>ValueError\<close> (``empty vocabulary'') when
  no text yields a term, in particular on an empty list of texts. This is the failure
  that the specification names \<^verbatim>\<open>EmptyCorpusError\<close>; \<^verbatim>\<open>search.py\<close> has no check of its
  own for an empty corpus.
\<close>

definition fit_transform ::
  "(string \<Rightarrow> string list) \<Rightarrow> string list \<Rightarrow> py_error + vectorizer \<times> real list list" where
  "fit_transform an texts =
     (let v = fit an texts
      in if vocabulary v = [] then Inl ValueError
         else Inr (v, map (transform v) texts))"

text \<open>
  Modelled from the spec: a concrete analyzer for the examples, for ASCII texts only:
  ``tokenized by splitting on non-alphanumeric boundaries and case-folding''. A character
  outside ASCII (an accented letter) counts as a separator here, which the library does
  not do; the examples are ASCII words of two letters or more, on which this analyzer and
  the default token pattern of the library agree. No theorem depends on this analyzer but
  through the examples: the analyzer is a parameter of every other statement.
\<close>

definition lower_char :: "char \<Rightarrow> char" where
  "lower_char c =
     (case map_of (zip ''ABCDEFGHIJKLMNOPQRSTUVWXYZ'' ''abcdefghijklmnopqrstuvwxyz'') c of
        None \<Rightarrow> c | Some l \<Rightarrow> l)"

definition alnum :: "char \<Rightarrow> bool" where
  "alnum c = (c \<in> set ''abcdefghijklmnopqrstuvwxyzABCDEFGHIJKLMNOPQRSTUVWXYZ0123456789'')"

fun split_words :: "string \<Rightarrow> string \<Rightarrow> string list" where
  "split_words w [] = (if w = [] then [] else [w])"
| "split_words w (c # cs) =
     (if alnum c then split_words (w @ [c]) cs
      else if w = [] then split_words [] cs
      else w # split_words [] cs)"

definition tokenize :: "string \<Rightarrow> string list" where
  "tokenize text = split_words [] (map lower_char text)"

subsection \<open>\<^verbatim>\<open>load_data\<close>\<close>

text \<open>
  \<^verbatim>\<open>texts = [doc[TEXT_FIELD] for doc in docs]\<close>: the comprehension raises \<^verbatim>\<open>KeyError\<close> at
  the first document without the field.
\<close>

fun texts_of :: "doc list \<Rightarrow> py_error + string list" where
  "texts_of [] = Inr []"
| "texts_of (d # ds) =
     (case d TEXT_FIELD of
        None \<Rightarrow> Inl KeyError
      | Some t \<Rightarrow> (case texts_of ds of Inl e \<Rightarrow> Inl e | Inr ts \<Rightarrow> Inr (t # ts)))"

definition load_data ::
  "(string \<Rightarrow> string list) \<Rightarrow> doc list \<Rightarrow> py_error + doc list \<times> vectorizer \<times> real list list" where
  "load_data an docs =
     (case texts_of docs of
        Inl e \<Rightarrow> Inl e
      | Inr texts \<Rightarrow>
          (case fit_transform an texts of
             Inl e \<Rightarrow> Inl e
           | Inr (v, tfidf_matrix) \<Rightarrow> Inr (docs, v, tfidf_matrix)))"

subsection \<open>\<^verbatim>\<open>search_solutions\<close>\<close>

text \<open>
  \<^verbatim>\<open>tfidf_matrix @ query_vector.T\<close> raises \<^verbatim>\<open>ValueError\<close> when the dimensions do not
  agree.
\<close>

definition matvec :: "real list list \<Rightarrow> real list \<Rightarrow> py_error + real list" where
  "matvec m q =
     (if list_all (\<lambda>row. length row = length q) m then Inr (map (\<lambda>row. dot row q) m)
      else Inl ValueError)"

text \<open>
  The loop over \<^verbatim>\<open>top_indices\<close>, with the local list \<^verbatim>\<open>results\<close> as accumulator. An
  index out of range raises \<^verbatim>\<open>IndexError\<close>.
\<close>

fun collect :: "'d list \<Rightarrow> real list \<Rightarrow> nat list \<Rightarrow> ('d \<times> real) list \<Rightarrow> py_error + ('d \<times> real) list" where
  "collect docs scores [] results = Inr results"
| "collect docs scores (idx # rest) results =
     (if length scores \<le> idx then Inl IndexError
      else let score = scores ! idx
           in if score > 0 then
                (if length docs \<le> idx then Inl IndexError
                 else collect docs scores rest (results @ [(docs ! idx, score)]))
              else collect docs scores rest results)"

text \<open>
  \<^verbatim>\<open>np.argsort\<close> is the parameter \<open>argsort\<close>: its algorithm is not among the sources,
  and the library does not promise an order for equal values, so the model fixes what
  the library promises (\<open>np_argsort\<close> below) and nothing more. \<^verbatim>\<open>results.sort(key=..., reverse=True)\<close> is the stable
  sort of Python, which keeps the order of equal keys also when reversed.

  The three objects that the caller passes by reference are returned next to the outcome,
  as the state after the call.
\<close>

definition search_solutions ::
  "(real list \<Rightarrow> nat list) \<Rightarrow> string \<Rightarrow> 'd list \<Rightarrow> vectorizer \<Rightarrow> real list list \<Rightarrow> int
     \<Rightarrow> (py_error + ('d \<times> real) list) \<times> ('d list \<times> vectorizer \<times> real list list)" where
  "search_solutions argsort query docs v tfidf_matrix top_k =
     (if query = [] then (Inr [], (docs, v, tfidf_matrix))
      else
        let query_vector = transform v query
        in case matvec tfidf_matrix query_vector of
             Inl e \<Rightarrow> (Inl e, (docs, v, tfidf_matrix))
           | Inr scores \<Rightarrow>
               (let top_indices = py_take top_k (argsort (map uminus scores))
                in (case collect docs scores top_indices [] of
                      Inl e \<Rightarrow> (Inl e, (docs, v, tfidf_matrix))
                    | Inr results \<Rightarrow>
                        (Inr (sort_key (\<lambda>x. - snd x) results), (docs, v, tfidf_matrix)))))"

text \<open>What the library promises of \<^verbatim>\<open>np.argsort\<close>: the indices of the array, in an order
  that sorts it.\<close>

definition np_argsort :: "(real list \<Rightarrow> nat list) \<Rightarrow> bool" where
  "np_argsort argsort =
     (\<forall>xs. distinct (argsort xs) \<and> set (argsort xs) = {0..<length xs}
           \<and> sorted (map ((!) xs) (argsort xs)))"

text \<open>
  For the examples, an argsort that lists equal values by ascending index. The examples
  are corpora of two documents.
\<close>

definition stable_argsort :: "real list \<Rightarrow> nat list" where
  "stable_argsort xs = sort_key ((!) xs) [0..<length xs]"

subsection \<open>Notions of the proofs\<close>

text \<open>The sum of the squares of a vector, the scores of a query against the rows of the
  matrix, and the indices that \<^verbatim>\<open>search_solutions\<close> keeps, in its order.\<close>

definition sumsq :: "real list \<Rightarrow> real" where
  "sumsq v = (\<Sum>x \<leftarrow> v. x\<^sup>2)"

definition scores_of :: "vectorizer \<Rightarrow> real list list \<Rightarrow> string \<Rightarrow> real list" where
  "scores_of v m query = map (\<lambda>row. dot row (transform v query)) m"

definition hits :: "(real list \<Rightarrow> nat list) \<Rightarrow> int \<Rightarrow> real list \<Rightarrow> nat list" where
  "hits argsort top_k s = filter (\<lambda>i. 0 < s ! i) (py_take top_k (argsort (map uminus s)))"

subsection \<open>Example corpora\<close>

definition two_docs :: "doc list" where
  "two_docs = [[TEXT_FIELD \<mapsto> ''mur mince voisin'', ID_FIELD \<mapsto> ''1''],
               [TEXT_FIELD \<mapsto> ''vitrage bruit mur'', ID_FIELD \<mapsto> ''2'']]"

definition two_texts :: "string list" where
  "two_texts = [''mur mince voisin'', ''vitrage bruit mur'']"


definition tie_vectorizer :: vectorizer where
  "tie_vectorizer = \<lparr>analyzer = tokenize, vocabulary = [''mur''], idf = [1]\<rparr>"

text \<open>Two documents with the same text.\<close>

definition twin_docs :: "doc list" where
  "twin_docs = [[TEXT_FIELD \<mapsto> ''mur'', ID_FIELD \<mapsto> ''1''],
                [TEXT_FIELD \<mapsto> ''mur'', ID_FIELD \<mapsto> ''2'']]"

text \<open>A document whose text is not empty and has no term.\<close>

definition punct_docs :: "doc list" where
  "punct_docs = [[TEXT_FIELD \<mapsto> ''mur'', ID_FIELD \<mapsto> ''1''],
                 [TEXT_FIELD \<mapsto> ''!!'', ID_FIELD \<mapsto> ''2'']]"

text \<open>A corpus in which no text has a term.\<close>

definition only_punct_docs :: "doc list" where
  "only_punct_docs = [[TEXT_FIELD \<mapsto> ''!!'', ID_FIELD \<mapsto> ''1'']]"

text \<open>A document without the text field.\<close>

definition bad_docs :: "doc list" where
  "bad_docs = [[TEXT_FIELD \<mapsto> ''mur mince'', ID_FIELD \<mapsto> ''1''], [ID_FIELD \<mapsto> ''2'']]"

section \<open>Lemmas\<close>

subsection \<open>The loop, the slice and the text fields\<close>

lemma collect_eq:
  "\<forall>i \<in> set idxs. i < length scores \<and> i < length docs \<Longrightarrow>
   collect docs scores idxs acc =
     Inr (acc @ map (\<lambda>i. (docs ! i, scores ! i)) (filter (\<lambda>i. scores ! i > 0) idxs))"
  by (induction idxs arbitrary: acc) (auto simp: Let_def)

lemma set_py_take: "set (py_take k xs) \<subseteq> set xs"
  by (auto simp: py_take_def dest: in_set_takeD)

lemma sorted_py_take: "sorted (map f xs) \<Longrightarrow> sorted (map f (py_take k xs))"
  by (simp add: py_take_def take_map[symmetric] sorted_wrt_take)


lemma search_empty_query:
  "search_solutions argsort [] docs v m top_k = (Inr [], (docs, v, m))"
  by (simp add: search_solutions_def)

lemma texts_of_Inr:
  "texts_of docs = Inr texts \<Longrightarrow>
     length texts = length docs \<and> (\<forall>i < length docs. (docs ! i) TEXT_FIELD = Some (texts ! i))"
proof (induction docs arbitrary: texts)
  case Nil
  then show ?case by simp
next
  case (Cons d ds)
  then show ?case
    by (auto split: option.splits sum.splits simp: nth_Cons')
qed

lemma texts_of_Inl:
  "d \<in> set docs \<Longrightarrow> d TEXT_FIELD = None \<Longrightarrow> texts_of docs = Inl KeyError"
  by (induction docs) (auto split: option.splits sum.splits)

lemma texts_of_total:
  "(\<forall>d \<in> set docs. d TEXT_FIELD \<noteq> None) \<Longrightarrow> texts_of docs = Inr (map (\<lambda>d. the (d TEXT_FIELD)) docs)"
  by (induction docs) (auto split: option.splits sum.splits)

subsection \<open>Norms and dot products\<close>

text \<open>
  For two vectors of the same length, the sum of the squares of their difference is
  the sum of their sums of squares minus twice their dot product. So the dot product of
  two vectors of norm at most one is at most one, and it is one only if they are equal.
\<close>

lemma sumsq_nonneg: "0 \<le> sumsq v"
  by (auto simp: sumsq_def intro!: sum_list_nonneg)

lemma sumsq_zero_iff: "sumsq v = 0 \<longleftrightarrow> (\<forall>x \<in> set v. x = 0)"
proof -
  have "sumsq v = 0 \<longleftrightarrow> (\<forall>y \<in> set (map power2 v). y = 0)"
    unfolding sumsq_def by (rule sum_list_nonneg_eq_0_iff) auto
  then show ?thesis by simp
qed

lemma l2norm_sumsq: "l2norm v = sqrt (sumsq v)"
  by (simp add: l2norm_def sumsq_def)

lemma l2norm_zero_iff: "l2norm v = 0 \<longleftrightarrow> (\<forall>x \<in> set v. x = 0)"
  by (simp add: l2norm_sumsq sumsq_zero_iff)

lemma sumsq_scale: "sumsq (map (\<lambda>x. x / c) v) = sumsq v / c\<^sup>2"
  by (induction v) (auto simp: sumsq_def power_divide add_divide_distrib)

lemma sumsq_normalize: "l2norm v \<noteq> 0 \<Longrightarrow> sumsq (normalize_l2 v) = 1"
proof -
  assume n: "l2norm v \<noteq> 0"
  then have "sumsq v \<noteq> 0" by (simp add: l2norm_sumsq)
  moreover have "(l2norm v)\<^sup>2 = sumsq v" by (simp add: l2norm_sumsq sumsq_nonneg)
  ultimately show ?thesis using n by (simp add: normalize_l2_def Let_def sumsq_scale)
qed

lemma l2norm_normalize: "l2norm v \<noteq> 0 \<Longrightarrow> l2norm (normalize_l2 v) = 1"
  by (simp add: l2norm_sumsq[of "normalize_l2 v"] sumsq_normalize)

lemma normalize_zero: "l2norm v = 0 \<Longrightarrow> normalize_l2 v = v"
  by (simp add: normalize_l2_def)


lemma length_normalize [simp]: "length (normalize_l2 v) = length v"
  by (simp add: normalize_l2_def Let_def)









lemma dot_replicate_zero: "dot u (replicate n 0) = 0"
proof -
  have z: "\<forall>p \<in> set (map2 (*) u (replicate n (0::real))). p = 0"
    by (auto dest!: set_zip_rightD)
  have "(sum_list (map2 (*) u (replicate n (0::real))) = 0)
      \<longleftrightarrow> (\<forall>p \<in> set (map2 (*) u (replicate n (0::real))). p = 0)"
    by (rule sum_list_nonneg_eq_0_iff) (use z in auto)
  then show ?thesis using z unfolding dot_def by blast
qed

subsection \<open>The fitted vectorizer\<close>

lemma smooth_idf_pos: "df \<le> n \<Longrightarrow> 1 \<le> smooth_idf n df"
  by (simp add: smooth_idf_def)

lemma doc_freq_le: "doc_freq tokss t \<le> length tokss"
  by (simp add: doc_freq_def)

lemma zip_map_same: "zip (map g xs) (map h xs) = map (\<lambda>x. (g x, h x)) xs"
  by (induction xs) auto

lemma fit_vocabulary: "set (vocabulary (fit an texts)) = (\<Union>t \<in> set texts. set (an t))"
  by (simp add: fit_def Let_def)

lemma fit_analyzer [simp]: "analyzer (fit an texts) = an"
  by (simp add: fit_def Let_def)

lemma length_fit_idf [simp]: "length (idf (fit an texts)) = length (vocabulary (fit an texts))"
  by (simp add: fit_def Let_def)

lemma fit_idf:
  "idf (fit an texts) =
     map (\<lambda>t. smooth_idf (length texts) (doc_freq (map an texts) t)) (vocabulary (fit an texts))"
  by (simp add: fit_def Let_def)


lemma length_transform:
  "length (idf v) = length (vocabulary v) \<Longrightarrow> length (transform v text) = length (vocabulary v)"
  by (simp add: transform_def tfidf_def count_vector_def)

text \<open>The weights of a text before normalisation.\<close>

lemma raw_fit:
  "map2 (*) (count_vector (vocabulary (fit an texts)) toks) (idf (fit an texts)) =
     map (\<lambda>t. real (count_list toks t) * smooth_idf (length texts) (doc_freq (map an texts) t))
       (vocabulary (fit an texts))"
  by (subst fit_idf) (simp add: count_vector_def zip_map_same)

lemma transform_fit:
  "transform (fit an texts) text =
     normalize_l2 (map (\<lambda>t. real (count_list (an text) t)
        * smooth_idf (length texts) (doc_freq (map an texts) t)) (vocabulary (fit an texts)))"
  by (simp add: transform_def tfidf_def raw_fit)





lemma transform_fit_unit:
  assumes "text \<in> set texts" "an text \<noteq> []"
  shows "l2norm (transform (fit an texts) text) = 1"
proof -
  let ?raw = "map (\<lambda>t. real (count_list (an text) t)
        * smooth_idf (length texts) (doc_freq (map an texts) t)) (vocabulary (fit an texts))"
  from assms(2) obtain t where t: "t \<in> set (an text)" by (cases "an text") auto
  then have tv: "t \<in> set (vocabulary (fit an texts))"
    using assms(1) by (auto simp: fit_vocabulary)
  define w where "w = real (count_list (an text) t)
      * smooth_idf (length texts) (doc_freq (map an texts) t)"
  have "count_list (an text) t \<noteq> 0" using t by (simp add: count_list_0_iff)
  then have c: "0 < real (count_list (an text) t)" by simp
  have "1 \<le> smooth_idf (length texts) (doc_freq (map an texts) t)"
    using doc_freq_le[of "map an texts" t] by (simp add: smooth_idf_pos)
  then have pos: "0 < w" using c unfolding w_def by (intro mult_pos_pos) simp_all
  have mem: "w \<in> set ?raw" using tv unfolding w_def by (intro image_eqI[where x = t] | simp)+
  have "\<not> (\<forall>x \<in> set ?raw. x = 0)"
  proof
    assume "\<forall>x \<in> set ?raw. x = 0"
    then have "w = 0" using mem by blast
    then show False using pos by simp
  qed
  then have "l2norm ?raw \<noteq> 0" using l2norm_zero_iff[of ?raw] by blast
  then have "l2norm (normalize_l2 ?raw) = 1" by (rule l2norm_normalize)
  then show ?thesis by (simp only: transform_fit)
qed

lemma transform_no_terms:
  assumes "\<forall>t \<in> set (analyzer v text). t \<notin> set (vocabulary v)"
    and "length (idf v) = length (vocabulary v)"
  shows "transform v text = replicate (length (vocabulary v)) 0"
proof -
  have c: "count_vector (vocabulary v) (analyzer v text) = replicate (length (vocabulary v)) 0"
    using assms(1) by (auto simp: count_vector_def count_list_0_iff map_replicate_const[symmetric]
        intro!: map_cong)
  have r: "map2 (*) (replicate (length ys) (0::real)) ys = replicate (length ys) 0" for ys
    by (induction ys) auto
  have "map2 (*) (count_vector (vocabulary v) (analyzer v text)) (idf v)
      = replicate (length (vocabulary v)) 0"
    using r[of "idf v"] c assms(2) by simp
  moreover have "l2norm (replicate n 0) = 0" for n
    by (simp add: l2norm_zero_iff)
  ultimately show ?thesis
    by (simp add: transform_def tfidf_def normalize_zero)
qed

subsection \<open>The built index\<close>

lemma load_data_Inr:
  assumes "load_data an raw = Inr (docs, v, m)"
  obtains texts where "texts_of raw = Inr texts" "docs = raw" "v = fit an texts"
    "m = map (transform v) texts" "vocabulary v \<noteq> []"
  using assms
  by (auto simp: load_data_def fit_transform_def Let_def split: sum.splits if_splits)

lemma load_data_total:
  assumes "\<forall>d \<in> set raw. d TEXT_FIELD \<noteq> None"
    and "\<exists>d \<in> set raw. an (the (d TEXT_FIELD)) \<noteq> []"
  shows "\<exists>v m. load_data an raw = Inr (raw, v, m)"
proof -
  let ?texts = "map (\<lambda>d. the (d TEXT_FIELD)) raw"
  have t: "texts_of raw = Inr ?texts" using assms(1) by (rule texts_of_total)
  from assms(2) obtain d tok where "d \<in> set raw" "tok \<in> set (an (the (d TEXT_FIELD)))"
    by (metis last_in_set)
  then have "tok \<in> set (vocabulary (fit an ?texts))"
    by (auto simp: fit_vocabulary)
  then have "vocabulary (fit an ?texts) \<noteq> []" by auto
  then show ?thesis using t by (simp add: load_data_def fit_transform_def Let_def)
qed

lemma matvec_built:
  assumes "load_data an raw = Inr (docs, v, m)"
  shows "matvec m (transform v query) = Inr (scores_of v m query)"
    and "length (scores_of v m query) = length docs"
proof -
  from assms obtain texts where t: "texts_of raw = Inr texts" "docs = raw" "v = fit an texts"
    "m = map (transform v) texts" by (rule load_data_Inr)
  have len: "length (idf v) = length (vocabulary v)" using t(3) by simp
  show "matvec m (transform v query) = Inr (scores_of v m query)"
    using t(4) len by (simp add: matvec_def scores_of_def list_all_iff length_transform)
  show "length (scores_of v m query) = length docs"
    using t texts_of_Inr[OF t(1)] by (simp add: scores_of_def)
qed

lemma built_length: "load_data an raw = Inr (docs, v, m) \<Longrightarrow> length m = length docs"
  using matvec_built(2)[of an raw docs v m] by (simp add: scores_of_def)


lemma built_rows:
  assumes "load_data an raw = Inr (docs, v, m)" "i < length docs"
  obtains texts where "v = fit an texts" "length texts = length docs" "texts ! i \<in> set texts"
    "(docs ! i) TEXT_FIELD = Some (texts ! i)" "m ! i = transform v (texts ! i)"
    "texts = map (\<lambda>d. the (d TEXT_FIELD)) docs"
proof -
  from assms(1) obtain texts where t: "texts_of raw = Inr texts" "docs = raw" "v = fit an texts"
    "m = map (transform v) texts" by (rule load_data_Inr)
  have l: "length texts = length docs" and f: "\<forall>i < length docs. (docs ! i) TEXT_FIELD = Some (texts ! i)"
    using texts_of_Inr[OF t(1)] t(2) by auto
  have "texts = map (\<lambda>d. the (d TEXT_FIELD)) docs"
    using l f by (intro nth_equalityI) simp_all
  show ?thesis
  proof (rule that[of texts])
    show "v = fit an texts" by (rule t(3))
    show "length texts = length docs" by (rule l)
    show "texts ! i \<in> set texts" using l assms(2) by simp
    show "(docs ! i) TEXT_FIELD = Some (texts ! i)" using f assms(2) by blast
    show "m ! i = transform v (texts ! i)" using l assms(2) by (simp add: t(4))
    show "texts = map (\<lambda>d. the (d TEXT_FIELD)) docs" by fact
  qed
qed

lemma doc_freq_docs:
  "doc_freq (map an (map (\<lambda>d. the (d TEXT_FIELD)) docs)) t
     = length (filter (\<lambda>d. t \<in> set (an (the (d TEXT_FIELD)))) docs)"
  by (simp add: doc_freq_def filter_map comp_def)


text \<open>The rows of a built index.\<close>

lemma built_rows_weights:
  assumes "load_data an raw = Inr (docs, v, m)"
  shows "length m = length docs
     \<and> (\<forall>i < length docs. \<exists>text. (docs ! i) TEXT_FIELD = Some text
          \<and> m ! i = normalize_l2 (map (\<lambda>t. real (count_list (an text) t)
                * (ln ((1 + real (length docs))
                     / (1 + real (length (filter (\<lambda>d. t \<in> set (an (the (d TEXT_FIELD)))) docs))))
                   + 1)) (vocabulary v))
          \<and> (an text \<noteq> [] \<longrightarrow> l2norm (m ! i) = 1)
          \<and> (an text = [] \<longrightarrow> m ! i = replicate (length (vocabulary v)) 0))"
proof (intro conjI allI impI)
  show "length m = length docs" using assms by (rule built_length)
next
  fix i assume i: "i < length docs"
  from assms i obtain texts where t: "v = fit an texts" "length texts = length docs"
    "texts ! i \<in> set texts" "(docs ! i) TEXT_FIELD = Some (texts ! i)"
    "m ! i = transform v (texts ! i)" "texts = map (\<lambda>d. the (d TEXT_FIELD)) docs"
    by (rule built_rows)
  let ?text = "texts ! i"
  have "m ! i = normalize_l2 (map (\<lambda>t. real (count_list (an ?text) t)
        * smooth_idf (length texts) (doc_freq (map an texts) t)) (vocabulary v))"
    using t(1,5) by (simp only: transform_fit)
  then have f: "m ! i = normalize_l2 (map (\<lambda>t. real (count_list (an ?text) t)
        * (ln ((1 + real (length docs))
             / (1 + real (length (filter (\<lambda>d. t \<in> set (an (the (d TEXT_FIELD)))) docs))))
           + 1)) (vocabulary v))"
    unfolding smooth_idf_def t(2) by (subst (asm) t(6)) (simp only: doc_freq_docs)
  have u: "l2norm (m ! i) = 1" if "an ?text \<noteq> []"
    using transform_fit_unit[of "texts ! i" texts an, OF t(3) that] t(1,5) by simp
  have z: "m ! i = replicate (length (vocabulary v)) 0" if "an ?text = []"
  proof -
    have "\<forall>tok \<in> set (analyzer v ?text). tok \<notin> set (vocabulary v)"
      using that t(1) by simp
    moreover have "length (idf v) = length (vocabulary v)" using t(1) by simp
    ultimately show ?thesis using t(5) by (simp only: transform_no_terms)
  qed
  show "\<exists>text. (docs ! i) TEXT_FIELD = Some text
          \<and> m ! i = normalize_l2 (map (\<lambda>t. real (count_list (an text) t)
                * (ln ((1 + real (length docs))
                     / (1 + real (length (filter (\<lambda>d. t \<in> set (an (the (d TEXT_FIELD)))) docs))))
                   + 1)) (vocabulary v))
          \<and> (an text \<noteq> [] \<longrightarrow> l2norm (m ! i) = 1)
          \<and> (an text = [] \<longrightarrow> m ! i = replicate (length (vocabulary v)) 0)"
    using t(4) f u z by blast
qed

subsection \<open>Sorting the indices\<close>

lemma stable_ok: "np_argsort stable_argsort"
  unfolding np_argsort_def stable_argsort_def
  by (auto simp: sorted_sort_key)

text \<open>In a list sorted by a key, the elements whose key is below a bound are a prefix.\<close>

lemma length_filter_take_sorted:
  fixes f :: "'a \<Rightarrow> real"
  assumes "sorted (map f xs)"
  shows "length (filter (\<lambda>x. f x < c) (take k xs)) = min k (length (filter (\<lambda>x. f x < c) xs))"
  using assms
proof (induction xs arbitrary: k)
  case Nil
  then show ?case by simp
next
  case (Cons x xs)
  show ?case
  proof (cases k)
    case 0
    then show ?thesis by simp
  next
    case (Suc k')
    show ?thesis
    proof (cases "f x < c")
      case True
      then show ?thesis using Cons Suc by simp
    next
      case False
      have "\<forall>y \<in> set xs. \<not> f y < c" using Cons.prems False by auto
      then have "filter (\<lambda>x. f x < c) xs = []" "filter (\<lambda>x. f x < c) (take k' xs) = []"
        by (auto simp: filter_empty_conv dest: in_set_takeD)
      then show ?thesis using False Suc by simp
    qed
  qed
qed

lemma length_filter_perm:
  assumes "distinct p" "set p = {0..<length (s :: real list)}"
  shows "length (filter (\<lambda>i. P (s ! i)) p) = length (filter P s)"
proof -
  have "length (filter (\<lambda>i. P (s ! i)) p) = card ({i. P (s ! i)} \<inter> set p)"
    using assms(1) by (simp add: distinct_length_filter)
  also have "\<dots> = card ({i. P (s ! i)} \<inter> set [0..<length s])"
    using assms(2) by simp
  also have "\<dots> = length (filter (\<lambda>i. P (s ! i)) [0..<length s])"
    by (simp add: distinct_length_filter del: set_upt)
  also have "\<dots> = length (filter P (map ((!) s) [0..<length s]))"
    by (simp add: filter_map comp_def)
  also have "\<dots> = length (filter P s)"
    by (simp add: map_nth)
  finally show ?thesis .
qed

subsection \<open>The matches of a search\<close>

text \<open>
  On a built index \<^verbatim>\<open>search_solutions\<close> raises nothing, and the final sort changes
  nothing: the list it sorts is in the order of \<^verbatim>\<open>np.argsort(-scores)\<close> already.
\<close>

lemma search_built:
  assumes b: "load_data an raw = Inr (docs, v, m)" and a: "np_argsort argsort" and q: "query \<noteq> []"
  shows "search_solutions argsort query docs v m top_k =
    (Inr (map (\<lambda>i. (docs ! i, scores_of v m query ! i))
            (filter (\<lambda>i. scores_of v m query ! i > 0)
               (py_take top_k (argsort (map uminus (scores_of v m query)))))),
     (docs, v, m))"
proof -
  let ?s = "scores_of v m query"
  let ?p = "argsort (map uminus ?s)"
  let ?t = "py_take top_k ?p"
  let ?r = "map (\<lambda>i. (docs ! i, ?s ! i)) (filter (\<lambda>i. ?s ! i > 0) ?t)"
  have mv: "matvec m (transform v query) = Inr ?s" and len: "length ?s = length docs"
    using matvec_built[OF b] by auto
  have sp: "set ?p = {0..<length ?s}" and so: "sorted (map ((!) (map uminus ?s)) ?p)"
    using a by (auto simp: np_argsort_def)
  have rng: "\<forall>i \<in> set ?t. i < length ?s \<and> i < length docs"
    using set_py_take[of top_k ?p] sp len by auto
  have col: "collect docs ?s ?t [] = Inr ?r"
    using collect_eq[OF rng, of "[]"] by simp
  have "sorted (map ((!) (map uminus ?s)) ?t)"
    using so by (rule sorted_py_take)
  then have "sorted (map ((!) (map uminus ?s)) (filter (\<lambda>i. ?s ! i > 0) ?t))"
    by (simp add: sorted_filter)
  moreover have "map (\<lambda>x. - snd x) ?r = map ((!) (map uminus ?s)) (filter (\<lambda>i. ?s ! i > 0) ?t)"
    using rng by (auto simp: comp_def)
  ultimately have "sorted (map (\<lambda>x. - snd x) ?r)" by (simp only:)
  then have "sort_key (\<lambda>x. - snd x) ?r = ?r" by (rule sort_key_id_if_sorted)
  then show ?thesis
    using q mv col by (simp add: search_solutions_def Let_def)
qed

lemma search_hits:
  assumes "load_data an raw = Inr (docs, v, m)" "np_argsort argsort" "query \<noteq> []"
  shows "search_solutions argsort query docs v m top_k =
    (Inr (map (\<lambda>i. (docs ! i, scores_of v m query ! i)) (hits argsort top_k (scores_of v m query))),
     (docs, v, m))"
  using search_built[OF assms] by (simp add: hits_def)

lemma hits_props:
  assumes "np_argsort argsort"
  shows "set (hits argsort top_k s) \<subseteq> {0..<length s}"
    and "distinct (hits argsort top_k s)"
    and "sorted_wrt (\<lambda>i j. s ! j \<le> s ! i) (hits argsort top_k s)"
    and "\<forall>i \<in> set (hits argsort top_k s). 0 < s ! i"
    and "0 \<le> top_k \<Longrightarrow> int (length (hits argsort top_k s)) \<le> top_k"
proof -
  let ?p = "argsort (map uminus s)"
  have d: "distinct ?p" and sp: "set ?p = {0..<length s}"
    and so: "sorted (map ((!) (map uminus s)) ?p)"
    using assms by (auto simp: np_argsort_def)
  show "set (hits argsort top_k s) \<subseteq> {0..<length s}"
    using set_py_take[of top_k ?p] sp by (auto simp: hits_def)
  show "distinct (hits argsort top_k s)"
    using d by (simp add: hits_def py_take_def)
  have "sorted_wrt (\<lambda>i j. map uminus s ! i \<le> map uminus s ! j) ?p"
    using so by (simp add: sorted_wrt_map)
  then have "sorted_wrt (\<lambda>i j. map uminus s ! i \<le> map uminus s ! j) (hits argsort top_k s)"
    by (simp add: hits_def py_take_def sorted_wrt_filter sorted_wrt_take)
  moreover have "\<forall>i \<in> set (hits argsort top_k s). i < length s"
    using set_py_take[of top_k ?p] sp by (auto simp: hits_def)
  ultimately show "sorted_wrt (\<lambda>i j. s ! j \<le> s ! i) (hits argsort top_k s)"
    by (auto elim!: sorted_wrt_mono_rel[rotated])
  show "\<forall>i \<in> set (hits argsort top_k s). 0 < s ! i"
    by (simp add: hits_def)
  show "int (length (hits argsort top_k s)) \<le> top_k" if "0 \<le> top_k"
  proof -
    have "length (hits argsort top_k s) \<le> length (take (nat top_k) ?p)"
      using that unfolding hits_def py_take_def by (simp del: length_take)
    also have "\<dots> \<le> nat top_k" by simp
    finally show ?thesis using that by simp
  qed
qed

lemma length_hits:
  assumes "np_argsort argsort" "0 \<le> top_k"
  shows "int (length (hits argsort top_k s)) = min top_k (int (length (filter (\<lambda>x. 0 < x) s)))"
proof -
  let ?p = "argsort (map uminus s)"
  have d: "distinct ?p" and sp: "set ?p = {0..<length s}"
    and so: "sorted (map ((!) (map uminus s)) ?p)"
    using assms by (auto simp: np_argsort_def)
  have eq: "(0 < s ! i) = (map uminus s ! i < 0)" if "i \<in> set ?p" for i
    using that sp by simp
  have "length (hits argsort top_k s)
      = length (filter (\<lambda>i. map uminus s ! i < 0) (take (nat top_k) ?p))"
    unfolding hits_def py_take_def using assms(2) eq
    by (auto intro!: arg_cong[where f = length] filter_cong dest: in_set_takeD)
  also have "\<dots> = min (nat top_k) (length (filter (\<lambda>i. map uminus s ! i < 0) ?p))"
    using so by (rule length_filter_take_sorted)
  also have "length (filter (\<lambda>i. map uminus s ! i < 0) ?p) = length (filter (\<lambda>i. 0 < s ! i) ?p)"
    using eq by (auto intro!: arg_cong[where f = length] filter_cong)
  also have "\<dots> = length (filter (\<lambda>x. 0 < x) s)"
    using d sp by (rule length_filter_perm)
  finally show ?thesis using assms(2) by simp
qed

subsection \<open>The example corpora\<close>

lemma fields_neq: "TEXT_FIELD \<noteq> ID_FIELD"
  by (simp add: TEXT_FIELD_def ID_FIELD_def)


lemma tokenize_mur: "tokenize ''mur'' = [''mur'']"
  by (simp add: tokenize_def lower_char_def alnum_def)

lemma tokenize_punct: "tokenize ''!!'' = []"
  by (simp add: tokenize_def lower_char_def alnum_def)

lemma two_built:
  "load_data tokenize two_docs
     = Inr (two_docs, fit tokenize two_texts, map (transform (fit tokenize two_texts)) two_texts)"
proof -
  have "texts_of two_docs = Inr two_texts"
    by (simp add: two_docs_def two_texts_def fields_neq)
  moreover have "''mur'' \<in> set (vocabulary (fit tokenize two_texts))"
    by (simp add: fit_vocabulary two_texts_def tokenize_def lower_char_def alnum_def)
  then have "vocabulary (fit tokenize two_texts) \<noteq> []" by auto
  ultimately show ?thesis by (simp add: load_data_def fit_transform_def Let_def)
qed



lemma tie_row_mur: "transform tie_vectorizer ''mur'' = [1]"
  by (simp add: transform_def tfidf_def tie_vectorizer_def tokenize_mur count_vector_def
      normalize_l2_def l2norm_def)




lemma twin_fit: "fit tokenize [''mur'', ''mur''] = tie_vectorizer"
  by (simp add: fit_def tie_vectorizer_def tokenize_mur doc_freq_def smooth_idf_def)

lemma twin_built: "load_data tokenize twin_docs = Inr (twin_docs, tie_vectorizer, [[1], [1]])"
  by (simp add: load_data_def twin_docs_def fields_neq fit_transform_def twin_fit tie_row_mur)
    (simp add: tie_vectorizer_def)

lemma twin_search_stable:
  "fst (search_solutions stable_argsort ''mur'' twin_docs tie_vectorizer [[1], [1]] TOP_K)
     = Inr [(twin_docs ! 0, 1), (twin_docs ! 1, 1)]"
  by (simp add: search_solutions_def tie_row_mur matvec_def dot_def stable_argsort_def py_take_def
      twin_docs_def Let_def TOP_K_def)

lemma punct_built:
  "load_data tokenize punct_docs
     = Inr (punct_docs, fit tokenize [''mur'', ''!!''],
            map (transform (fit tokenize [''mur'', ''!!''])) [''mur'', ''!!''])"
proof -
  have "texts_of punct_docs = Inr [''mur'', ''!!'']"
    by (simp add: punct_docs_def fields_neq)
  moreover have "''mur'' \<in> set (vocabulary (fit tokenize [''mur'', ''!!'']))"
    by (simp add: fit_vocabulary tokenize_mur)
  then have "vocabulary (fit tokenize [''mur'', ''!!'']) \<noteq> []" by auto
  ultimately show ?thesis by (simp add: load_data_def fit_transform_def Let_def)
qed

lemma punct_row: "transform (fit tokenize [''mur'', ''!!'']) ''!!'' = [0]"
proof -
  have "vocabulary (fit tokenize [''mur'', ''!!'']) = [''mur'']"
    by (simp add: fit_def tokenize_mur tokenize_punct Let_def)
  then show ?thesis
    using transform_no_terms[of "fit tokenize [''mur'', ''!!'']" "''!!''"]
    by (simp add: tokenize_punct)
qed

lemma punct_fields: "\<forall>d \<in> set punct_docs. d TEXT_FIELD \<noteq> None"
  by (simp add: punct_docs_def fields_neq)

lemma punct_term: "\<exists>d \<in> set punct_docs. tokenize (the (d TEXT_FIELD)) \<noteq> []"
  by (simp add: punct_docs_def fields_neq tokenize_mur)

lemma only_punct_fails: "load_data tokenize only_punct_docs = Inl ValueError"
  by (simp add: load_data_def only_punct_docs_def fields_neq fit_transform_def fit_def tokenize_punct)

section \<open>The claims\<close>

text \<open>
  In every theorem the hypothesis \<open>load_data an raw = Inr (docs, v, m)\<close> says that
  \<open>(docs, v, m)\<close> is a built index, and \<open>np_argsort argsort\<close> that \<^verbatim>\<open>np.argsort\<close> returns
  the indices of its argument in an order that sorts it.
\<close>

subsection \<open>C1: the document vectors\<close>

text \<open>
  Claim C1, as amended. For every corpus of documents that all have the text field, in
  which at least one text yields a term, \<^verbatim>\<open>load_data\<close> succeeds and there is one row per
  document. The row of a document is the L2-normalised vector of the weights
  \<open>tf * (ln ((1 + N) / (1 + df)) + 1)\<close> of the terms of the vocabulary, where \<open>tf\<close>
  is the number of occurrences of the term in the text of the document, \<open>N\<close> the number
  of documents and \<open>df\<close> the number of documents that contain the term. The row has
  L2 norm 1 when the text yields at least one term, and is the zero vector when it yields
  none.

  The claim as stated has the zero vector for the empty text only, and a result for every
  corpus that is not empty. The text \<open>''!!''\<close> is not empty and has no term: in a corpus
  with another text its row is the zero vector, of norm 0, and on a corpus of its own the
  library raises \<^verbatim>\<open>ValueError\<close> for the empty vocabulary
  (\<open>build_rows_unit_or_zero_counterexample\<close>).
\<close>

theorem build_rows_unit_or_zero:
  assumes "\<forall>d \<in> set raw. d TEXT_FIELD \<noteq> None"
    and "\<exists>d \<in> set raw. an (the (d TEXT_FIELD)) \<noteq> []"
  shows "\<exists>v m. load_data an raw = Inr (raw, v, m) \<and> length m = length raw
     \<and> (\<forall>i < length raw. \<exists>text. (raw ! i) TEXT_FIELD = Some text
          \<and> m ! i = normalize_l2 (map (\<lambda>t. real (count_list (an text) t)
                * (ln ((1 + real (length raw))
                     / (1 + real (length (filter (\<lambda>d. t \<in> set (an (the (d TEXT_FIELD)))) raw))))
                   + 1)) (vocabulary v))
          \<and> (an text \<noteq> [] \<longrightarrow> l2norm (m ! i) = 1)
          \<and> (an text = [] \<longrightarrow> m ! i = replicate (length (vocabulary v)) 0))"
proof -
  from assms obtain v m where b: "load_data an raw = Inr (raw, v, m)"
    using load_data_total by blast
  show ?thesis using b built_rows_weights[OF b] by blast
qed

theorem build_rows_unit_or_zero_witness:
  "length punct_docs = 2
   \<and> (punct_docs ! 0) TEXT_FIELD = Some ''mur'' \<and> (punct_docs ! 1) TEXT_FIELD = Some ''!!''
   \<and> tokenize ''mur'' \<noteq> []
   \<and> (\<exists>v m. load_data tokenize punct_docs = Inr (punct_docs, v, m) \<and> length m = 2
        \<and> (punct_docs ! 0) TEXT_FIELD = Some ''mur'' \<and> l2norm (m ! 0) = 1
        \<and> (punct_docs ! 1) TEXT_FIELD = Some ''!!''
        \<and> m ! 1 = replicate (length (vocabulary v)) 0)"
proof -
  from build_rows_unit_or_zero[OF punct_fields punct_term] obtain v m where
    b: "load_data tokenize punct_docs = Inr (punct_docs, v, m)" and l: "length m = length punct_docs"
    and r: "\<forall>i < length punct_docs. \<exists>text. (punct_docs ! i) TEXT_FIELD = Some text
          \<and> m ! i = normalize_l2 (map (\<lambda>t. real (count_list (tokenize text) t)
                * (ln ((1 + real (length punct_docs))
                     / (1 + real (length (filter (\<lambda>d. t \<in> set (tokenize (the (d TEXT_FIELD)))) punct_docs))))
                   + 1)) (vocabulary v))
          \<and> (tokenize text \<noteq> [] \<longrightarrow> l2norm (m ! i) = 1)
          \<and> (tokenize text = [] \<longrightarrow> m ! i = replicate (length (vocabulary v)) 0)"
    by blast
  have f: "(punct_docs ! 0) TEXT_FIELD = Some ''mur''" "(punct_docs ! 1) TEXT_FIELD = Some ''!!''"
    by (simp_all add: punct_docs_def fields_neq)
  have n: "length punct_docs = 2" by (simp add: punct_docs_def)
  have "l2norm (m ! 0) = 1" using r[rule_format, of 0] f(1) n by (auto simp: tokenize_mur)
  moreover have "m ! 1 = replicate (length (vocabulary v)) 0"
    using r[rule_format, of 1] f(2) n by (auto simp: tokenize_punct)
  ultimately have "load_data tokenize punct_docs = Inr (punct_docs, v, m) \<and> length m = 2
        \<and> (punct_docs ! 0) TEXT_FIELD = Some ''mur'' \<and> l2norm (m ! 0) = 1
        \<and> (punct_docs ! 1) TEXT_FIELD = Some ''!!''
        \<and> m ! 1 = replicate (length (vocabulary v)) 0"
    using b l f n by simp
  then show ?thesis using f n by (auto simp: tokenize_mur)
qed

theorem build_rows_unit_or_zero_counterexample:
  "load_data tokenize punct_docs
     = Inr (punct_docs, fit tokenize [''mur'', ''!!''],
            map (transform (fit tokenize [''mur'', ''!!''])) [''mur'', ''!!''])
   \<and> (punct_docs ! 1) TEXT_FIELD = Some ''!!'' \<and> ''!!'' \<noteq> ''''
   \<and> map (transform (fit tokenize [''mur'', ''!!''])) [''mur'', ''!!''] ! 1 = [0]
   \<and> l2norm [0] \<noteq> 1
   \<and> only_punct_docs \<noteq> [] \<and> (only_punct_docs ! 0) TEXT_FIELD = Some ''!!''
   \<and> load_data tokenize only_punct_docs = Inl ValueError"
  using punct_built only_punct_fails
  by (simp add: punct_row punct_docs_def only_punct_docs_def l2norm_def fields_neq)

subsection \<open>C2: at most \<open>top_k\<close> matches, by descending score, none of score zero\<close>

text \<open>
  Claim C2, as amended. For every built index, every query and every \<open>top_k \<ge> 1\<close>,
  \<^verbatim>\<open>search_solutions\<close> returns at most \<open>top_k\<close> matches, in an order in which the score
  never increases, and every score is positive, so none is zero.

  The claim as stated has the scores strictly descending. Two matches can have the same
  score, and both are returned: two documents with the text \<open>''mur''\<close> both score 1
  against the query \<open>''mur''\<close> (\<open>search_at_most_top_k_descending_counterexample\<close>).
\<close>

theorem search_at_most_top_k_descending:
  assumes "load_data an raw = Inr (docs, v, m)" and "np_argsort argsort" and "1 \<le> top_k"
  shows "\<exists>res. fst (search_solutions argsort query docs v m top_k) = Inr res
           \<and> int (length res) \<le> top_k
           \<and> sorted_wrt (\<ge>) (map snd res)
           \<and> (\<forall>(d, s) \<in> set res. 0 < s \<and> s \<noteq> 0)"
proof (cases "query = []")
  case True
  then show ?thesis using assms(3) by (simp add: search_empty_query)
next
  case False
  let ?s = "scores_of v m query"
  let ?h = "hits argsort top_k ?s"
  let ?res = "map (\<lambda>i. (docs ! i, ?s ! i)) ?h"
  have r: "fst (search_solutions argsort query docs v m top_k) = Inr ?res"
    using search_hits[OF assms(1,2) False] by simp
  have "int (length ?res) \<le> top_k"
    using hits_props(5)[OF assms(2), of top_k ?s] assms(3) by simp
  moreover have "sorted_wrt (\<ge>) (map snd ?res)"
    using hits_props(3)[OF assms(2), of ?s top_k] by (simp add: sorted_wrt_map comp_def)
  moreover have "\<forall>(d, s) \<in> set ?res. 0 < s \<and> s \<noteq> 0"
    using hits_props(4)[OF assms(2), of top_k ?s] by auto
  ultimately show ?thesis using r by blast
qed

theorem search_at_most_top_k_descending_witness:
  "load_data tokenize two_docs
     = Inr (two_docs, fit tokenize two_texts, map (transform (fit tokenize two_texts)) two_texts)
   \<and> np_argsort stable_argsort \<and> (1::int) \<le> TOP_K
   \<and> (\<exists>res. fst (search_solutions stable_argsort ''bruit mur'' two_docs (fit tokenize two_texts)
                  (map (transform (fit tokenize two_texts)) two_texts) TOP_K) = Inr res
           \<and> int (length res) \<le> TOP_K
           \<and> sorted_wrt (\<ge>) (map snd res)
           \<and> (\<forall>(d, s) \<in> set res. 0 < s \<and> s \<noteq> 0))"
proof -
  have k: "(1::int) \<le> TOP_K" by (simp add: TOP_K_def)
  show ?thesis
    using two_built stable_ok k search_at_most_top_k_descending[OF two_built stable_ok k, of "''bruit mur''"] by simp
qed

theorem search_at_most_top_k_descending_counterexample:
  "load_data tokenize twin_docs = Inr (twin_docs, tie_vectorizer, [[1], [1]])
   \<and> np_argsort stable_argsort \<and> (1::int) \<le> TOP_K
   \<and> fst (search_solutions stable_argsort ''mur'' twin_docs tie_vectorizer [[1], [1]] TOP_K)
       = Inr [(twin_docs ! 0, 1), (twin_docs ! 1, 1)]
   \<and> \<not> sorted_wrt (>) (map snd [(twin_docs ! 0, 1::real), (twin_docs ! 1, 1)])"
  using twin_built stable_ok twin_search_stable by (simp add: TOP_K_def)

subsection \<open>C3: the failures of \<^verbatim>\<open>load_data\<close>\<close>

text \<open>
  Claim C3. \<^verbatim>\<open>load_data\<close> fails on the empty list of documents, and fails when a
  document has no text field. The code has no exception class of its own: on the empty
  list the failure is the \<^verbatim>\<open>ValueError\<close> of \<^verbatim>\<open>fit_transform\<close> (the vocabulary is
  empty), the one the specification calls \<^verbatim>\<open>EmptyCorpusError\<close>; without the field it is
  the \<^verbatim>\<open>KeyError\<close> of \<^verbatim>\<open>doc[TEXT_FIELD]\<close>, the one the specification calls
  \<^verbatim>\<open>MissingFieldError\<close>.
\<close>

theorem load_data_fails:
  "load_data an [] = Inl ValueError
   \<and> ((\<exists>d \<in> set docs. d TEXT_FIELD = None) \<longrightarrow> load_data an docs = Inl KeyError)"
proof -
  have "load_data an [] = Inl ValueError"
    by (simp add: load_data_def fit_transform_def fit_def)
  moreover have "load_data an docs = Inl KeyError" if "\<exists>d \<in> set docs. d TEXT_FIELD = None"
  proof -
    from that obtain d where "d \<in> set docs" "d TEXT_FIELD = None" by blast
    then have "texts_of docs = Inl KeyError" by (rule texts_of_Inl)
    then show ?thesis by (simp add: load_data_def)
  qed
  ultimately show ?thesis by blast
qed

theorem load_data_fails_witness:
  "(\<exists>d \<in> set bad_docs. d TEXT_FIELD = None)
   \<and> load_data tokenize bad_docs = Inl KeyError \<and> load_data tokenize [] = Inl ValueError"
proof -
  have "\<exists>d \<in> set bad_docs. d TEXT_FIELD = None"
    using fields_neq by (simp add: bad_docs_def)
  then show ?thesis using load_data_fails[of tokenize bad_docs] by simp
qed

subsection \<open>C4: the order of equal scores\<close>

text \<open>
  Claim C4 is not settled here. Two matches of equal score appear in the order in which
  \<^verbatim>\<open>np.argsort(-scores)\<close> lists their indices: the loop keeps that order, and the final
  sort of Python is stable (\<open>search_built\<close>). Which of two equal values \<^verbatim>\<open>np.argsort\<close>
  lists first is decided by the algorithm of the library, which is not among the sources
  and which the library does not document as stable.
\<close>

subsection \<open>C5: a search never raises\<close>

text \<open>
  Claim C5. For every built index and every \<open>top_k\<close>, \<^verbatim>\<open>search_solutions\<close> returns the
  empty list on the empty query, and on every query it returns a list, ordered by
  descending score, and raises nothing. The list is empty when no term of the query is in
  the vocabulary.
\<close>

theorem search_never_raises:
  assumes "load_data an raw = Inr (docs, v, m)" and "np_argsort argsort"
  shows "fst (search_solutions argsort [] docs v m top_k) = Inr []
     \<and> (\<exists>res. fst (search_solutions argsort query docs v m top_k) = Inr res
            \<and> sorted_wrt (\<ge>) (map snd res)
            \<and> (set (analyzer v query) \<inter> set (vocabulary v) = {} \<longrightarrow> res = []))"
proof (cases "query = []")
  case True
  then show ?thesis by (simp add: search_empty_query)
next
  case False
  let ?s = "scores_of v m query"
  let ?h = "hits argsort top_k ?s"
  let ?res = "map (\<lambda>i. (docs ! i, ?s ! i)) ?h"
  have r: "fst (search_solutions argsort query docs v m top_k) = Inr ?res"
    using search_hits[OF assms(1,2) False] by simp
  have so: "sorted_wrt (\<ge>) (map snd ?res)"
    using hits_props(3)[OF assms(2), of ?s top_k] by (simp add: sorted_wrt_map comp_def)
  have "?res = []" if o: "set (analyzer v query) \<inter> set (vocabulary v) = {}"
  proof -
    from assms(1) obtain texts where "v = fit an texts" by (rule load_data_Inr)
    then have "length (idf v) = length (vocabulary v)" by simp
    moreover have "\<forall>t \<in> set (analyzer v query). t \<notin> set (vocabulary v)" using o by auto
    ultimately have "transform v query = replicate (length (vocabulary v)) 0"
      by (intro transform_no_terms)
    then have "\<forall>x \<in> set ?s. x = 0"
      by (simp add: scores_of_def dot_replicate_zero)
    then have "\<forall>i < length ?s. \<not> 0 < ?s ! i" by (auto simp: all_set_conv_all_nth)
    then have "?h = []"
      using hits_props(1,4)[OF assms(2), of top_k ?s]
      by (cases ?h) (auto simp: subset_eq)
    then show ?thesis by simp
  qed
  then show ?thesis using r so by (simp add: search_empty_query)
qed

theorem search_never_raises_witness:
  "load_data tokenize two_docs
     = Inr (two_docs, fit tokenize two_texts, map (transform (fit tokenize two_texts)) two_texts)
   \<and> np_argsort stable_argsort
   \<and> fst (search_solutions stable_argsort '''' two_docs (fit tokenize two_texts)
                  (map (transform (fit tokenize two_texts)) two_texts) TOP_K) = Inr []
   \<and> (\<exists>res. fst (search_solutions stable_argsort ''silence total'' two_docs (fit tokenize two_texts)
                  (map (transform (fit tokenize two_texts)) two_texts) TOP_K) = Inr res
           \<and> sorted_wrt (\<ge>) (map snd res)
           \<and> (set (analyzer (fit tokenize two_texts) ''silence total'')
                 \<inter> set (vocabulary (fit tokenize two_texts)) = {} \<longrightarrow> res = []))"
  using two_built stable_ok search_never_raises[OF two_built stable_ok, of TOP_K "''silence total''"] by simp

subsection \<open>C6: a query equal to the text of a document\<close>




subsection \<open>C7: the scores\<close>

text \<open>
  Claim C7 is not stated here. The score of a match is the dot product of the row of the
  document and the vector of the query, computed in 64-bit floats. In real numbers the
  dot product of two vectors of norm 1 with entries that are not negative lies between 0
  and 1 (\<open>built_score\<close>); in floats the code can return \<^verbatim>\<open>1.0000000000000002\<close>. Whether a
  score exceeds 1 is a question about rounding, which this embedding does not model.
\<close>

subsection \<open>C8: the same call, the same result\<close>

text \<open>
  Claim C8. A second call of \<^verbatim>\<open>search_solutions\<close> with the same query and \<open>top_k\<close>,
  on the index as the first call left it, returns the result of the first call.
  (\<^verbatim>\<open>np.argsort\<close> is a function of its argument: it draws no random number.)
\<close>

theorem search_deterministic:
  "fst (case snd (search_solutions argsort query docs v m top_k) of
          (docs', v', m') \<Rightarrow> search_solutions argsort query docs' v' m' top_k)
     = fst (search_solutions argsort query docs v m top_k)"
proof -
  have "snd (search_solutions argsort query docs v m top_k) = (docs, v, m)"
    by (simp add: search_solutions_def Let_def split: sum.splits)
  then show ?thesis by simp
qed

subsection \<open>C9: a search leaves the index as it is\<close>

text \<open>
  Claim C9. After every call of \<^verbatim>\<open>search_solutions\<close>, whether it returns or raises, the
  documents, the vectorizer and the matrix are what they were before the call.
\<close>

theorem search_leaves_index: "snd (search_solutions argsort query docs v m top_k) = (docs, v, m)"
  by (simp add: search_solutions_def Let_def split: sum.splits)

subsection \<open>C10: the number of matches\<close>

text \<open>
  Claim C10. For every built index, every query that is not empty and every
  \<open>top_k \<ge> 1\<close>, the number of matches is the minimum of \<open>top_k\<close> and the number of
  documents whose score against the query is positive.
\<close>

theorem search_length_min:
  assumes "load_data an raw = Inr (docs, v, m)" and "np_argsort argsort"
    and "query \<noteq> []" and "1 \<le> top_k"
  shows "\<exists>res. fst (search_solutions argsort query docs v m top_k) = Inr res
           \<and> int (length res)
               = min top_k (int (length (filter (\<lambda>row. 0 < dot row (transform v query)) m)))"
proof -
  let ?s = "scores_of v m query"
  have "fst (search_solutions argsort query docs v m top_k)
      = Inr (map (\<lambda>i. (docs ! i, ?s ! i)) (hits argsort top_k ?s))"
    using search_hits[OF assms(1,2,3)] by simp
  moreover have "int (length (hits argsort top_k ?s))
      = min top_k (int (length (filter (\<lambda>x. 0 < x) ?s)))"
    using assms(2,4) by (intro length_hits) simp_all
  moreover have "length (filter (\<lambda>x. 0 < x) ?s)
      = length (filter (\<lambda>row. 0 < dot row (transform v query)) m)"
    by (simp add: scores_of_def filter_map comp_def)
  ultimately show ?thesis by simp
qed

theorem search_length_min_witness:
  "load_data tokenize two_docs
     = Inr (two_docs, fit tokenize two_texts, map (transform (fit tokenize two_texts)) two_texts)
   \<and> np_argsort stable_argsort \<and> ''bruit mur'' \<noteq> '''' \<and> (1::int) \<le> TOP_K
   \<and> (\<exists>res. fst (search_solutions stable_argsort ''bruit mur'' two_docs (fit tokenize two_texts)
                  (map (transform (fit tokenize two_texts)) two_texts) TOP_K) = Inr res
           \<and> int (length res)
               = min TOP_K (int (length (filter
                   (\<lambda>row. 0 < dot row (transform (fit tokenize two_texts) ''bruit mur''))
                   (map (transform (fit tokenize two_texts)) two_texts)))))"
proof -
  have k: "(1::int) \<le> TOP_K" by (simp add: TOP_K_def)
  have q: "''bruit mur'' \<noteq> ''''" by simp
  show ?thesis
    using two_built stable_ok k search_length_min[OF two_built stable_ok q k] by simp
qed

end
